theory Spec2Isabelle
  imports Complex_Main "HOL-Library.List_Lexorder" "HOL-Library.Char_ord" "HOL-Library.Multiset"
begin

section \<open>Pocket Money Tracker: ledger and period calendar\<close>

text \<open>
  A shallow embedding of \<^verbatim>\<open>src/python/main.py\<close>: the ledger operations of
  \<^verbatim>\<open>DataManager\<close>, the entry forms of \<^verbatim>\<open>KidDetailsView\<close> and
  \<^verbatim>\<open>EditEntryDialog\<close> that guard them, and the calendar functions of
  \<^verbatim>\<open>PeriodHelper\<close>.

  Numbers. The source keeps amounts, percentages and interest rates as Python floats.
  Here they are exact rationals: \<open>+\<close>, \<open>-\<close>, \<open>*\<close> and \<open>/\<close> are the exact
  operations, and \<^verbatim>\<open>round(x, 2)\<close> is rounding to the nearest hundredth with ties
  to the even hundredth, which is what Python computes from the exact value of its
  argument. Binary representation error is therefore outside this model; on the
  concrete inputs used below float arithmetic gives the same values, and where a
  rounding tie decides (the kid \<open>kid_halves\<close>) every intermediate value is a binary
  fraction, which a float holds exactly.

  Text fields. The forms read numbers with \<^verbatim>\<open>float(...)\<close>; the operations below
  start from the parsed numbers. Identifiers (\<^verbatim>\<open>uuid4\<close>) and time stamps
  (\<^verbatim>\<open>datetime.now()\<close>) are arguments of the operations that need them.

  The data file. \<^verbatim>\<open>_load_data\<close> and \<^verbatim>\<open>_save_data\<close> read and write the whole
  data set; an operation takes the data set as loaded and returns it as left on disk,
  unchanged where the source returns before \<^verbatim>\<open>_save_data\<close>.
\<close>

subsection \<open>Errors\<close>

text \<open>
  The source signals a failure by a message box and an early return, or by returning
  \<^verbatim>\<open>None\<close> or \<^verbatim>\<open>False\<close>. The constructors carry the names of the
  specification's error kinds:
  \<^item> \<open>ValidationError\<close>: "Please enter a valid amount", "Amount must be greater than 0",
    "Allocation must total 100%", "Used from Saved cannot be negative";
  \<^item> \<open>Overdraw\<close>: "Cannot use more than available saved ...";
  \<^item> \<open>DuplicatePeriod\<close>: "Entry for this period already exists";
  \<^item> \<open>UpdateFailed\<close>: "Failed to update entry. Period may conflict with existing
    entry." (\<^verbatim>\<open>update_entry\<close> returned \<^verbatim>\<open>False\<close>);
  \<^item> \<open>NotFound\<close>: the kid or the entry is absent from what the view holds;
  \<^item> \<open>ValueError\<close>, \<open>OverflowError\<close>: the Python exceptions of that name.
\<close>

datatype error =
  ValidationError | Overdraw | DuplicatePeriod | UpdateFailed | NotFound
  | ValueError | OverflowError

subsection \<open>Rounding to two decimals\<close>

definition py_round2 :: "rat \<Rightarrow> rat" where
  "py_round2 x =
     (let y = x * 100; f = \<lfloor>y\<rfloor>; d = y - of_int f
      in of_int (if d < 1 / 2 then f
                 else if 1 / 2 < d then f + 1
                 else if even f then f else f + 1) / 100)"

subsection \<open>Records of the data file\<close>

text \<open>
  An entry as \<^verbatim>\<open>add_entry\<close> stores it. \<^verbatim>\<open>usedFromSaved\<close> and
  \<^verbatim>\<open>interestRate\<close> are read with \<^verbatim>\<open>entry.get(key, 0)\<close>, so they may be absent;
  \<^verbatim>\<open>updatedAt\<close> is absent until the first update.
\<close>

record entry =
  entry_id :: string
  period :: string
  periodType :: string
  amount :: rat
  spentPercent :: rat
  savedPercent :: rat
  givenPercent :: rat
  spent :: rat
  saved :: rat
  given :: rat
  usedFromSaved :: "rat option"
  interestRate :: "rat option"
  createdAt :: string
  updatedAt :: "string option"

record allocation =
  alloc_spent :: rat
  alloc_saved :: rat
  alloc_given :: rat

text \<open>
  A kid; \<^verbatim>\<open>allocation\<close> and \<^verbatim>\<open>interestRate\<close> are read with \<^verbatim>\<open>kid.get\<close> and
  a default. \<^verbatim>\<open>kid.get("entries", [])\<close> makes an absent list the empty list.
\<close>

record kid =
  kid_id :: string
  kid_name :: string
  kid_allocation :: "allocation option"
  kid_interestRate :: "rat option"
  kid_entries :: "entry list"

type_synonym data = "kid list"

text \<open>\<^verbatim>\<open>{**entry, "interestEarned": ..., "runningSaved": ...}\<close>\<close>

record processed_entry =
  base :: entry
  interestEarned :: rat
  runningSaved :: rat

record totals =
  totalSpent :: rat
  totalSaved :: rat
  totalGiven :: rat
  totalInterest :: rat
  totalUsedFromSaved :: rat
  grandTotal :: rat
  totals_entries :: "processed_entry list"

text \<open>\<^verbatim>\<open>d.get(key, default)\<close> on an optional field.\<close>

definition get_or :: "'a option \<Rightarrow> 'a \<Rightarrow> 'a" where
  "get_or v d = (case v of None \<Rightarrow> d | Some x \<Rightarrow> x)"

subsection \<open>\<^verbatim>\<open>DataManager._calculate_totals\<close>\<close>

text \<open>The local variables of the loop.\<close>

record calc_state =
  total_spent :: rat
  total_given :: rat
  total_interest :: rat
  total_used_from_saved :: rat
  running_saved :: rat
  processed_entries :: "processed_entry list"

definition calc_init :: calc_state where
  "calc_init =
     \<lparr>total_spent = 0, total_given = 0, total_interest = 0, total_used_from_saved = 0,
      running_saved = 0, processed_entries = []\<rparr>"

text \<open>One pass through the body of \<^verbatim>\<open>for entry in sorted_entries\<close>.\<close>

definition calc_step :: "calc_state \<Rightarrow> entry \<Rightarrow> calc_state" where
  "calc_step st e =
     (let interest_rate = get_or (interestRate e) 0;
          interest_amount = running_saved st * (interest_rate / 100);
          total_interest1 = total_interest st + interest_amount;
          running1 = running_saved st + interest_amount;
          total_spent1 = total_spent st + spent e;
          running2 = running1 + saved e;
          total_given1 = total_given st + given e;
          used_from_saved = get_or (usedFromSaved e) 0;
          running3 = running2 - used_from_saved;
          total_used1 = total_used_from_saved st + used_from_saved;
          processed_entry =
            \<lparr>base = e, interestEarned = py_round2 interest_amount,
             runningSaved = py_round2 running3\<rparr>
      in \<lparr>total_spent = total_spent1, total_given = total_given1,
          total_interest = total_interest1, total_used_from_saved = total_used1,
          running_saved = running3,
          processed_entries = processed_entries st @ [processed_entry]\<rparr>)"

fun calc_loop :: "entry list \<Rightarrow> calc_state \<Rightarrow> calc_state" where
  "calc_loop [] st = st"
| "calc_loop (e # es) st = calc_loop es (calc_step st e)"

text \<open>
  \<^verbatim>\<open>sorted(entries, key=lambda x: x["period"])\<close> is a stable sort on the key strings,
  compared character by character; so is \<open>sort_key\<close>.
\<close>

definition calc_final :: "kid \<Rightarrow> calc_state" where
  "calc_final k = calc_loop (sort_key period (kid_entries k)) calc_init"

definition calculate_totals :: "kid \<Rightarrow> totals" where
  "calculate_totals k =
     (let st = calc_final k;
          total_spent_with_used = total_spent st + total_used_from_saved st
      in \<lparr>totalSpent = py_round2 total_spent_with_used,
          totalSaved = py_round2 (running_saved st),
          totalGiven = py_round2 (total_given st),
          totalInterest = py_round2 (total_interest st),
          totalUsedFromSaved = py_round2 (total_used_from_saved st),
          grandTotal = py_round2 (total_spent_with_used + running_saved st + total_given st),
          totals_entries = processed_entries st\<rparr>)"

subsection \<open>\<^verbatim>\<open>DataManager.get_kid\<close>\<close>

text \<open>
  The first kid with the identifier, with its totals; the \<^verbatim>\<open>"entries"\<close> of the
  returned dictionary are \<open>totals_entries\<close> of the second component.
\<close>

definition get_kid :: "data \<Rightarrow> string \<Rightarrow> (kid \<times> totals) option" where
  "get_kid d kid_id' =
     (case find (\<lambda>k. kid_id k = kid_id') d of
        None \<Rightarrow> None
      | Some k \<Rightarrow> Some (k, calculate_totals k))"

subsection \<open>\<^verbatim>\<open>DataManager.add_entry\<close>\<close>

definition new_entry ::
  "string \<Rightarrow> string \<Rightarrow> string \<Rightarrow> string \<Rightarrow> rat \<Rightarrow> rat \<Rightarrow> rat \<Rightarrow> rat \<Rightarrow> rat \<Rightarrow> rat \<Rightarrow> entry" where
  "new_entry new_id now period' period_type amount' interest_rate
       spent_pct saved_pct given_pct used_from_saved =
     \<lparr>entry_id = new_id, period = period', periodType = period_type, amount = amount',
      spentPercent = spent_pct, savedPercent = saved_pct, givenPercent = given_pct,
      spent = py_round2 (amount' * spent_pct / 100),
      saved = py_round2 (amount' * saved_pct / 100),
      given = py_round2 (amount' * given_pct / 100),
      usedFromSaved = Some (py_round2 used_from_saved),
      interestRate = Some interest_rate,
      createdAt = now, updatedAt = None\<rparr>"

text \<open>
  The loop over \<^verbatim>\<open>data["kids"]\<close>: the first kid with the identifier decides. The
  result is the data set left on disk and the value returned (\<^verbatim>\<open>None\<close> for a
  duplicate period and for an unknown kid).
\<close>

fun add_entry ::
  "data \<Rightarrow> string \<Rightarrow> string \<Rightarrow> string \<Rightarrow> string \<Rightarrow> string \<Rightarrow> rat \<Rightarrow> rat \<Rightarrow> rat \<Rightarrow> rat \<Rightarrow> rat \<Rightarrow> rat
     \<Rightarrow> data \<times> entry option" where
  "add_entry [] kid_id' new_id now period' period_type amount' interest_rate
       spent_pct saved_pct given_pct used_from_saved = ([], None)"
| "add_entry (k # ks) kid_id' new_id now period' period_type amount' interest_rate
       spent_pct saved_pct given_pct used_from_saved =
     (if kid_id k = kid_id' then
        (if \<exists>e \<in> set (kid_entries k). period e = period' then (k # ks, None)
         else
           (let e = new_entry new_id now period' period_type amount' interest_rate
                      spent_pct saved_pct given_pct used_from_saved
            in (k\<lparr>kid_entries := kid_entries k @ [e]\<rparr> # ks, Some e)))
      else
        (case add_entry ks kid_id' new_id now period' period_type amount' interest_rate
                spent_pct saved_pct given_pct used_from_saved of
           (ks', r) \<Rightarrow> (k # ks', r)))"

subsection \<open>\<^verbatim>\<open>DataManager.update_entry\<close>\<close>







subsection \<open>\<^verbatim>\<open>KidDetailsView._add_entry\<close>\<close>

text \<open>
  The view holds the kid as \<^verbatim>\<open>get_kid\<close> returned it at the last refresh; the data
  set is the one that refresh read. The percentages and the interest rate are the kid's
  stored defaults. A view without its kid (\<^verbatim>\<open>self.kid\<close> is \<^verbatim>\<open>None\<close>) cannot
  go on: \<open>NotFound\<close>.
\<close>

definition default_allocation :: allocation where
  "default_allocation = \<lparr>alloc_spent = 40, alloc_saved = 40, alloc_given = 20\<rparr>"

definition view_add_entry ::
  "data \<Rightarrow> string \<Rightarrow> string \<Rightarrow> string \<Rightarrow> string \<Rightarrow> string \<Rightarrow> rat \<Rightarrow> rat
     \<Rightarrow> data \<times> (error + entry)" where
  "view_add_entry d kid_id' new_id now period_key period_type amount' used_from_saved =
     (if amount' \<le> 0 then (d, Inl ValidationError)
      else if used_from_saved < 0 then (d, Inl ValidationError)
      else
        (case get_kid d kid_id' of
           None \<Rightarrow> (d, Inl NotFound)
         | Some (k, t) \<Rightarrow>
             (let available_saved = totalSaved t
              in if used_from_saved > available_saved then (d, Inl Overdraw)
                 else
                   (let allocation = get_or (kid_allocation k) default_allocation;
                        interest_rate = get_or (kid_interestRate k) 0
                    in case add_entry d kid_id' new_id now period_key period_type amount'
                              interest_rate (alloc_spent allocation) (alloc_saved allocation)
                              (alloc_given allocation) used_from_saved of
                         (d', None) \<Rightarrow> (d', Inl DuplicatePeriod)
                       | (d', Some e) \<Rightarrow> (d', Inr e)))))"

subsection \<open>\<^verbatim>\<open>KidDetailsView._edit_entry\<close> and \<^verbatim>\<open>EditEntryDialog\<close>\<close>




subsection \<open>Strings: formatting, searching, splitting, \<^verbatim>\<open>int\<close>\<close>

text \<open>
  What the key functions use of Python's strings. \<^verbatim>\<open>str(n)\<close> and the format
  \<^verbatim>\<open>{n:02d}\<close> of an integer, \<^verbatim>\<open>sep in s\<close>, \<^verbatim>\<open>s.split(sep)\<close> (leftmost
  occurrences first, \<open>ValueError\<close> on the empty separator) and \<^verbatim>\<open>int(s)\<close>.
  Of \<^verbatim>\<open>int(s)\<close> the plain form is modelled: an optional sign and one or more ASCII
  digits; Python also accepts surrounding blanks, underscores between digits and other
  Unicode digits, which no key written by \<^verbatim>\<open>get_period_key\<close> contains.
\<close>

definition digit_char :: "nat \<Rightarrow> char" where
  "digit_char d = char_of (48 + d)"

fun str_nat :: "nat \<Rightarrow> string" where
  "str_nat n = (if n < 10 then [digit_char n] else str_nat (n div 10) @ [digit_char (n mod 10)])"

definition str_int :: "int \<Rightarrow> string" where
  "str_int i = (if i < 0 then CHR ''-'' # str_nat (nat (- i)) else str_nat (nat i))"

definition format_02d :: "int \<Rightarrow> string" where
  "format_02d i =
     (if i < 0 then str_int i
      else (let s = str_nat (nat i) in replicate (2 - length s) CHR ''0'' @ s))"

definition starts_with :: "string \<Rightarrow> string \<Rightarrow> bool" where
  "starts_with s sep = (take (length sep) s = sep)"

fun contains :: "string \<Rightarrow> string \<Rightarrow> bool" where
  "contains [] sep = (sep = [])"
| "contains (c # cs) sep = (starts_with (c # cs) sep \<or> contains cs sep)"

function split_at :: "string \<Rightarrow> string \<Rightarrow> string list" where
  "split_at [] sep = [[]]"
| "split_at (c # cs) sep =
     (if sep \<noteq> [] \<and> starts_with (c # cs) sep
      then [] # split_at (drop (length sep) (c # cs)) sep
      else (case split_at cs sep of
              [] \<Rightarrow> [[c]]
            | p # ps \<Rightarrow> (c # p) # ps))"
  by pat_completeness auto
termination
  by (relation "measure (\<lambda>(s, sep). length s)") auto

definition py_split :: "string \<Rightarrow> string \<Rightarrow> error + string list" where
  "py_split s sep = (if sep = [] then Inl ValueError else Inr (split_at s sep))"

definition is_digit :: "char \<Rightarrow> bool" where
  "is_digit c = (48 \<le> (of_char c :: nat) \<and> (of_char c :: nat) \<le> 57)"

definition digit_val :: "char \<Rightarrow> nat" where
  "digit_val c = of_char c - 48"

definition nat_of_digits :: "string \<Rightarrow> nat" where
  "nat_of_digits s = foldl (\<lambda>n c. 10 * n + digit_val c) 0 s"

definition py_int :: "string \<Rightarrow> error + int" where
  "py_int s =
     (case s of
        [] \<Rightarrow> Inl ValueError
      | c # cs \<Rightarrow>
          if c = CHR ''-'' \<or> c = CHR ''+'' then
            (if cs \<noteq> [] \<and> list_all is_digit cs
             then Inr ((if c = CHR ''-'' then - 1 else 1) * int (nat_of_digits cs))
             else Inl ValueError)
          else if list_all is_digit s then Inr (int (nat_of_digits s))
          else Inl ValueError)"

subsection \<open>Periods and their keys\<close>

text \<open>
  A period dictionary \<^verbatim>\<open>{"year": y, "week" | "biweek" | "quarter" | "month": i,
  "type": ...}\<close>: the type tag, the year and the index.
\<close>

datatype period_dict =
  Weekly int int | Biweekly int int | Quarterly int int | Monthly int int

text \<open>\<^verbatim>\<open>PeriodHelper.get_period_key\<close>\<close>

fun get_period_key :: "period_dict \<Rightarrow> string" where
  "get_period_key (Weekly y w) = str_int y @ ''-W'' @ format_02d w"
| "get_period_key (Biweekly y b) = str_int y @ ''-BW'' @ format_02d b"
| "get_period_key (Quarterly y q) = str_int y @ ''-Q'' @ str_int q"
| "get_period_key (Monthly y m) = str_int y @ ''-'' @ format_02d m"

text \<open>
  \<^verbatim>\<open>year, week = period_key.split(sep)\<close> needs exactly two parts; then
  \<^verbatim>\<open>int(year)\<close> and \<^verbatim>\<open>int(week)\<close>, in this order.
\<close>

definition split_pair :: "string \<Rightarrow> string \<Rightarrow> (int \<Rightarrow> int \<Rightarrow> period_dict) \<Rightarrow> error + period_dict" where
  "split_pair period_key sep mk =
     (case py_split period_key sep of
        Inl err \<Rightarrow> Inl err
      | Inr parts \<Rightarrow>
          (case parts of
             [year, idx] \<Rightarrow>
               (case py_int year of
                  Inl err \<Rightarrow> Inl err
                | Inr y \<Rightarrow> (case py_int idx of Inl err \<Rightarrow> Inl err | Inr i \<Rightarrow> Inr (mk y i)))
           | _ \<Rightarrow> Inl ValueError))"

text \<open>\<^verbatim>\<open>PeriodHelper.parse_period_key\<close>\<close>

definition parse_period_key :: "string \<Rightarrow> error + period_dict" where
  "parse_period_key period_key =
     (if contains period_key ''-W'' then split_pair period_key ''-W'' Weekly
      else if contains period_key ''-BW'' then split_pair period_key ''-BW'' Biweekly
      else if contains period_key ''-Q'' then split_pair period_key ''-Q'' Quarterly
      else split_pair period_key ''-'' Monthly)"

subsection \<open>Dates\<close>

text \<open>
  Modelled from the documentation of Python's \<^verbatim>\<open>datetime\<close> module, which is not
  part of the repository: a date of the proleptic Gregorian calendar with a year from
  1 to 9999 (\<open>ValueError\<close> outside, on a month outside 1..12 and on a day the month
  does not have), the ordinal of a date (1 for 0001-01-01), the ISO week number, and
  \<^verbatim>\<open>d - timedelta(days=1)\<close>, the day before (\<open>OverflowError\<close> before the first
  date). The time of day is always midnight and is left out.
\<close>

record date =
  d_year :: int
  d_month :: int
  d_day :: int

definition is_leap :: "int \<Rightarrow> bool" where
  "is_leap y = (y mod 4 = 0 \<and> (y mod 100 \<noteq> 0 \<or> y mod 400 = 0))"

definition month_lengths :: "int list" where
  "month_lengths = [31, 28, 31, 30, 31, 30, 31, 31, 30, 31, 30, 31]"

definition days_in_month :: "int \<Rightarrow> int \<Rightarrow> int" where
  "days_in_month y m = (if m = 2 \<and> is_leap y then 29 else month_lengths ! nat (m - 1))"

definition datetime :: "int \<Rightarrow> int \<Rightarrow> int \<Rightarrow> error + date" where
  "datetime y m d =
     (if y < 1 \<or> 9999 < y then Inl ValueError
      else if m < 1 \<or> 12 < m then Inl ValueError
      else if d < 1 \<or> days_in_month y m < d then Inl ValueError
      else Inr \<lparr>d_year = y, d_month = m, d_day = d\<rparr>)"

definition days_before_year :: "int \<Rightarrow> int" where
  "days_before_year y = (let y1 = y - 1 in y1 * 365 + y1 div 4 - y1 div 100 + y1 div 400)"

definition days_before_month :: "int \<Rightarrow> int \<Rightarrow> int" where
  "days_before_month y m =
     sum_list (take (nat (m - 1)) month_lengths) + (if 2 < m \<and> is_leap y then 1 else 0)"

definition ymd2ord :: "int \<Rightarrow> int \<Rightarrow> int \<Rightarrow> int" where
  "ymd2ord y m d = days_before_year y + days_before_month y m + d"

definition toordinal :: "date \<Rightarrow> int" where
  "toordinal dt = ymd2ord (d_year dt) (d_month dt) (d_day dt)"

text \<open>The ordinal of the Monday that starts ISO week 1 of a year.\<close>

definition isoweek1monday :: "int \<Rightarrow> int" where
  "isoweek1monday y =
     (let firstday = ymd2ord y 1 1;
          firstweekday = (firstday + 6) mod 7;
          week1monday = firstday - firstweekday
      in if 3 < firstweekday then week1monday + 7 else week1monday)"

text \<open>\<^verbatim>\<open>date.isocalendar()[1]\<close>\<close>

definition isocalendar_week :: "date \<Rightarrow> int" where
  "isocalendar_week dt =
     (let y = d_year dt;
          today = toordinal dt;
          week = (today - isoweek1monday y) div 7
      in if week < 0 then (today - isoweek1monday (y - 1)) div 7 + 1
         else if 52 \<le> week \<and> isoweek1monday (y + 1) \<le> today then 1
         else week + 1)"

definition minus_one_day :: "date \<Rightarrow> error + date" where
  "minus_one_day dt =
     (if 1 < d_day dt then Inr (dt\<lparr>d_day := d_day dt - 1\<rparr>)
      else if 1 < d_month dt then
        Inr (dt\<lparr>d_month := d_month dt - 1,
                d_day := days_in_month (d_year dt) (d_month dt - 1)\<rparr>)
      else if 1 < d_year dt then Inr \<lparr>d_year = d_year dt - 1, d_month = 12, d_day = 31\<rparr>
      else Inl OverflowError)"

subsection \<open>\<^verbatim>\<open>PeriodHelper\<close>: weeks in a year, date ranges, navigation\<close>

definition get_max_weeks_in_year :: "int \<Rightarrow> error + int" where
  "get_max_weeks_in_year y =
     (case datetime y 12 28 of
        Inl err \<Rightarrow> Inl err
      | Inr dec_28 \<Rightarrow> Inr (isocalendar_week dec_28))"

definition get_quarter_dates :: "int \<Rightarrow> int \<Rightarrow> error + date \<times> date" where
  "get_quarter_dates quarter y =
     (let start_month = (quarter - 1) * 3 + 1;
          end_month = start_month + 2
      in case datetime y start_month 1 of
           Inl err \<Rightarrow> Inl err
         | Inr start_date \<Rightarrow>
             (case (if end_month = 12 then datetime y 12 31
                    else (case datetime y (end_month + 1) 1 of
                            Inl err \<Rightarrow> Inl err
                          | Inr next_first \<Rightarrow> minus_one_day next_first)) of
                Inl err \<Rightarrow> Inl err
              | Inr end_date \<Rightarrow> Inr (start_date, end_date)))"

definition get_month_dates :: "int \<Rightarrow> int \<Rightarrow> error + date \<times> date" where
  "get_month_dates m y =
     (case datetime y m 1 of
        Inl err \<Rightarrow> Inl err
      | Inr start_date \<Rightarrow>
          (case (if m = 12 then datetime y 12 31
                 else (case datetime y (m + 1) 1 of
                         Inl err \<Rightarrow> Inl err
                       | Inr next_first \<Rightarrow> minus_one_day next_first)) of
             Inl err \<Rightarrow> Inl err
           | Inr end_date \<Rightarrow> Inr (start_date, end_date)))"

text \<open>
  \<^verbatim>\<open>PeriodHelper.navigate_period\<close>. For the week types the number of weeks of the
  period's year is computed first, whatever the direction.
\<close>

fun navigate_period :: "period_dict \<Rightarrow> int \<Rightarrow> error + period_dict" where
  "navigate_period (Weekly y w) direction =
     (case get_max_weeks_in_year y of
        Inl err \<Rightarrow> Inl err
      | Inr max_weeks \<Rightarrow>
          (let w1 = w + direction
           in if w1 < 1 then
                (case get_max_weeks_in_year (y - 1) of
                   Inl err \<Rightarrow> Inl err
                 | Inr last_week \<Rightarrow> Inr (Weekly (y - 1) last_week))
              else if max_weeks < w1 then Inr (Weekly (y + 1) 1)
              else Inr (Weekly y w1)))"
| "navigate_period (Biweekly y b) direction =
     (case get_max_weeks_in_year y of
        Inl err \<Rightarrow> Inl err
      | Inr weeks \<Rightarrow>
          (let max_biweeks = (weeks + 1) div 2;
               b1 = b + direction
           in if b1 < 1 then
                (case get_max_weeks_in_year (y - 1) of
                   Inl err \<Rightarrow> Inl err
                 | Inr last_weeks \<Rightarrow> Inr (Biweekly (y - 1) ((last_weeks + 1) div 2)))
              else if max_biweeks < b1 then Inr (Biweekly (y + 1) 1)
              else Inr (Biweekly y b1)))"
| "navigate_period (Quarterly y q) direction =
     (let q1 = q + direction
      in if q1 < 1 then Inr (Quarterly (y - 1) 4)
         else if 4 < q1 then Inr (Quarterly (y + 1) 1)
         else Inr (Quarterly y q1))"
| "navigate_period (Monthly y m) direction =
     (let m1 = m + direction
      in if m1 < 1 then Inr (Monthly (y - 1) 12)
         else if 12 < m1 then Inr (Monthly (y + 1) 1)
         else Inr (Monthly y m1))"

subsection \<open>Valid periods\<close>

fun period_year :: "period_dict \<Rightarrow> int" where
  "period_year (Weekly y w) = y"
| "period_year (Biweekly y b) = y"
| "period_year (Quarterly y q) = y"
| "period_year (Monthly y m) = y"

fun period_index :: "period_dict \<Rightarrow> int" where
  "period_index (Weekly y w) = w"
| "period_index (Biweekly y b) = b"
| "period_index (Quarterly y q) = q"
| "period_index (Monthly y m) = m"

fun week_based :: "period_dict \<Rightarrow> bool" where
  "week_based (Weekly y w) = True"
| "week_based (Biweekly y b) = True"
| "week_based (Quarterly y q) = False"
| "week_based (Monthly y m) = False"

text \<open>
  The index ranges the period selector offers: weeks \<open>1..max_weeks\<close> and biweeks
  \<open>1..(max_weeks + 1) // 2\<close> of the year, quarters \<open>1..4\<close>, months \<open>1..12\<close>.
\<close>

fun index_in_range :: "period_dict \<Rightarrow> bool" where
  "index_in_range (Weekly y w) =
     (case get_max_weeks_in_year y of
        Inl err \<Rightarrow> False
      | Inr max_weeks \<Rightarrow> 1 \<le> w \<and> w \<le> max_weeks)"
| "index_in_range (Biweekly y b) =
     (case get_max_weeks_in_year y of
        Inl err \<Rightarrow> False
      | Inr max_weeks \<Rightarrow> 1 \<le> b \<and> b \<le> (max_weeks + 1) div 2)"
| "index_in_range (Quarterly y q) = (1 \<le> q \<and> q \<le> 4)"
| "index_in_range (Monthly y m) = (1 \<le> m \<and> m \<le> 12)"

text \<open>A valid period: a year that \<^verbatim>\<open>datetime\<close> has, and an index of that year.\<close>

definition valid_period :: "period_dict \<Rightarrow> bool" where
  "valid_period p = (1 \<le> period_year p \<and> period_year p \<le> 9999 \<and> index_in_range p)"

text \<open>\<^verbatim>\<open>navigate_period(navigate_period(p, 1), -1)\<close>\<close>

definition there_and_back :: "period_dict \<Rightarrow> error + period_dict" where
  "there_and_back p =
     (case navigate_period p 1 of Inl err \<Rightarrow> Inl err | Inr q \<Rightarrow> navigate_period q (- 1))"

subsection \<open>The fold in the words of the specification\<close>

text \<open>
  Following the specification, not the source: \<open>interestEarned = runningSaved *
  entry.interestRate / 100\<close>; then \<open>runningSaved\<close> grows by the interest, grows by
  \<open>entry.saved\<close> and shrinks by \<open>entry.usedFromSaved\<close>; the fold starts at 0.
\<close>

definition spec_interestEarned :: "rat \<Rightarrow> entry \<Rightarrow> rat" where
  "spec_interestEarned r e = r * get_or (interestRate e) 0 / 100"

definition spec_step :: "rat \<Rightarrow> entry \<Rightarrow> rat" where
  "spec_step r e =
     (let interest = spec_interestEarned r e;
          r1 = r + interest;
          r2 = r1 + saved e;
          r3 = r2 - get_or (usedFromSaved e) 0
      in r3)"




subsection \<open>Example data\<close>

text \<open>
  Two monthly entries in a row: the first saves 100 of 250, the second saves nothing
  and carries an interest rate of 10 percent.
\<close>

definition entry_jan :: entry where
  "entry_jan =
     \<lparr>entry_id = ''entry_1'', period = ''2024-01'', periodType = ''monthly'', amount = 250,
      spentPercent = 40, savedPercent = 40, givenPercent = 20,
      spent = 100, saved = 100, given = 50,
      usedFromSaved = Some 0, interestRate = Some 0,
      createdAt = ''2024-01-31T18:00:00'', updatedAt = None\<rparr>"

definition entry_feb :: entry where
  "entry_feb =
     \<lparr>entry_id = ''entry_2'', period = ''2024-02'', periodType = ''monthly'', amount = 50,
      spentPercent = 50, savedPercent = 0, givenPercent = 50,
      spent = 25, saved = 0, given = 25,
      usedFromSaved = Some 0, interestRate = Some 10,
      createdAt = ''2024-02-29T18:00:00'', updatedAt = None\<rparr>"

definition kid_two :: kid where
  "kid_two =
     \<lparr>kid_id = ''kid_1'', kid_name = ''Ada'', kid_allocation = Some default_allocation,
      kid_interestRate = Some 10, kid_entries = [entry_jan, entry_feb]\<rparr>"





text \<open>
  A kid whose stored allocation sums to 150 percent, as \<^verbatim>\<open>update_allocation\<close>
  writes it when called with 50, 50, 50.
\<close>

definition kid_150 :: kid where
  "kid_150 =
     \<lparr>kid_id = ''kid_1'', kid_name = ''Ada'',
      kid_allocation = Some \<lparr>alloc_spent = 50, alloc_saved = 50, alloc_given = 50\<rparr>,
      kid_interestRate = Some 0, kid_entries = []\<rparr>"


text \<open>The add form on the kid with the 150 percent allocation: 10.00, nothing used.\<close>

definition add_to_kid_150 :: "data \<times> (error + entry)" where
  "add_to_kid_150 =
     view_add_entry [kid_150] ''kid_1'' ''entry_1'' ''2024-01-31T18:00:00''
       ''2024-01'' ''monthly'' 10 0"



section \<open>Properties of the ledger\<close>

subsection \<open>Rounding\<close>









subsection \<open>The loop of \<^verbatim>\<open>_calculate_totals\<close> and the fold of the specification\<close>




lemma map_upt_shift: "map f [0..<Suc n] = f 0 # map (\<lambda>i. f (Suc i)) [0..<n]"
  by (simp add: map_upt_Suc del: upt_Suc)






lemma fold_conservation:
  "foldl spec_step r es =
     r + (\<Sum>i\<leftarrow>[0..<length es]. spec_interestEarned (foldl spec_step r (take i es)) (es ! i))
       + sum_list (map saved es) - sum_list (map (\<lambda>e. get_or (usedFromSaved e) 0) es)"
proof (induction es arbitrary: r)
  case Nil
  show ?case by simp
next
  case (Cons e es)
  show ?case
    by (simp add: Cons.IH [of "spec_step r e"] map_upt_shift del: upt_Suc)
       (simp add: spec_step_def Let_def)
qed




subsection \<open>Claim C1\<close>



subsection \<open>Claim C10\<close>



subsection \<open>Claim C6\<close>




subsection \<open>The add path\<close>

lemma add_entry_duplicate:
  assumes "find (\<lambda>k. kid_id k = kid_id') d = Some k"
    and "\<exists>e \<in> set (kid_entries k). period e = p"
  shows "add_entry d kid_id' new_id now p pt am ir sp sv gv used = (d, None)"
  using assms by (induction d) (auto split: if_splits)


lemma add_entry_failed_unchanged:
  "snd (add_entry d kid_id' new_id now p pt am ir sp sv gv used) = None \<Longrightarrow>
   fst (add_entry d kid_id' new_id now p pt am ir sp sv gv used) = d"
  by (induction d) (auto simp: Let_def split: if_splits prod.splits)

lemma get_kid_find:
  "find (\<lambda>k. kid_id k = kid_id') d = Some k \<Longrightarrow> get_kid d kid_id' = Some (k, calculate_totals k)"
  by (simp add: get_kid_def)

lemma view_add_entry_failed_unchanged:
  assumes "snd (view_add_entry d kid_id' new_id now pk pt am used) = Inl err"
  shows "fst (view_add_entry d kid_id' new_id now pk pt am used) = d"
proof -
  let ?k = "fst (the (get_kid d kid_id'))"
  let ?a = "get_or (kid_allocation ?k) default_allocation"
  let ?call = "add_entry d kid_id' new_id now pk pt am (get_or (kid_interestRate ?k) 0)
                 (alloc_spent ?a) (alloc_saved ?a) (alloc_given ?a) used"
  show ?thesis
  proof (cases "snd ?call")
    case None
    then have "fst ?call = d" by (rule add_entry_failed_unchanged)
    with None show ?thesis
      by (cases ?call) (auto simp: view_add_entry_def Let_def split: option.splits prod.splits)
  next
    case (Some e)
    with assms show ?thesis
      by (cases ?call) (auto simp: view_add_entry_def Let_def split: option.splits prod.splits if_splits)
  qed
qed


subsection \<open>Claim C5\<close>

text \<open>
  C5. Where one of the kid's entries already has the key, \<^verbatim>\<open>DataManager.add_entry\<close>
  returns \<^verbatim>\<open>None\<close> and leaves the data set as it is, whatever the period type
  and the other arguments. Through the add form the call is an error that leaves the
  data set as it is, and the error is \<open>DuplicatePeriod\<close> once the form's own checks
  (amount, withdrawal, ceiling) have passed.
\<close>

theorem C5_duplicate_period:
  assumes "find (\<lambda>k. kid_id k = kid_id') d = Some k" and "e \<in> set (kid_entries k)"
  shows "add_entry d kid_id' new_id now (period e) period_type amount' interest_rate
             spent_pct saved_pct given_pct used_from_saved = (d, None)
         \<and> fst (view_add_entry d kid_id' new_id now (period e) period_type amount' used_from_saved) = d
         \<and> (\<exists>err. snd (view_add_entry d kid_id' new_id now (period e) period_type amount'
                          used_from_saved) = Inl err)
         \<and> (0 < amount' \<and> 0 \<le> used_from_saved
              \<and> used_from_saved \<le> totalSaved (calculate_totals k) \<longrightarrow>
            snd (view_add_entry d kid_id' new_id now (period e) period_type amount' used_from_saved)
              = Inl DuplicatePeriod)"
proof -
  have dup: "\<exists>x \<in> set (kid_entries k). period x = period e"
    using assms(2) by blast
  have dm: "add_entry d kid_id' new_id now (period e) period_type am ir sp sv gv used = (d, None)"
    for am ir sp sv gv used
    using assms(1) dup by (rule add_entry_duplicate)
  have view: "view_add_entry d kid_id' new_id now (period e) period_type amount' used_from_saved =
      (d, if amount' \<le> 0 \<or> used_from_saved < 0 then Inl ValidationError
          else if totalSaved (calculate_totals k) < used_from_saved then Inl Overdraw
          else Inl DuplicatePeriod)"
    by (simp add: view_add_entry_def get_kid_find [OF assms(1)] dm Let_def)
  show ?thesis unfolding view using dm by auto
qed

theorem C5_duplicate_period_witness:
  "add_entry [kid_two] ''kid_1'' ''entry_3'' ''2024-03-01T09:00:00'' ''2024-01'' ''weekly''
     50 0 40 40 20 0 = ([kid_two], None)
   \<and> view_add_entry [kid_two] ''kid_1'' ''entry_3'' ''2024-03-01T09:00:00'' ''2024-01'' ''weekly''
       50 0 = ([kid_two], Inl DuplicatePeriod)"
proof -
  have f: "find (\<lambda>k. kid_id k = ''kid_1'') [kid_two] = Some kid_two"
    by (simp add: kid_two_def)
  have e: "entry_jan \<in> set (kid_entries kid_two)"
    by (simp add: kid_two_def)
  have p: "period entry_jan = ''2024-01''"
    by (simp add: entry_jan_def)
  have t: "(0::rat) < 50 \<and> (0::rat) \<le> 0 \<and> 0 \<le> totalSaved (calculate_totals kid_two)"
    by code_simp
  note inst = C5_duplicate_period [OF f e, of "''entry_3''" "''2024-03-01T09:00:00''" "''weekly''"
      50 0 40 40 20 0, unfolded p]
  from inst t show ?thesis by (simp add: prod_eq_iff)
qed

subsection \<open>Claim C4\<close>

text \<open>
  C4 as stated: adding fails with \<open>ValidationError\<close> whenever the percentages do not
  sum to 100 within 0.01. The add path has no such check: the percentages are the
  kid's stored allocation, and with a stored allocation of 50, 50, 50 the entry is
  added.
\<close>

theorem C4_percentages_counterexample:
  "add_to_kid_150 =
     ([kid_150\<lparr>kid_entries :=
         [new_entry ''entry_1'' ''2024-01-31T18:00:00'' ''2024-01'' ''monthly'' 10 0 50 50 50 0]\<rparr>],
      Inr (new_entry ''entry_1'' ''2024-01-31T18:00:00'' ''2024-01'' ''monthly'' 10 0 50 50 50 0))
   \<and> \<bar>(50::rat) + 50 + 50 - 100\<bar> > 1 / 100"
  by code_simp

text \<open>
  C4, amended. The add form fails with \<open>ValidationError\<close> whenever the amount is not
  positive or \<open>usedFromSaved\<close> is negative, and whenever it fails, with any error,
  the data set is left as it was. The percentages are not checked on this path.
\<close>

theorem C4_validation_before_mutation:
  "(amount' \<le> 0 \<or> used_from_saved < 0 \<longrightarrow>
      view_add_entry d kid_id' new_id now period_key period_type amount' used_from_saved
        = (d, Inl ValidationError))
   \<and> (\<forall>err. snd (view_add_entry d kid_id' new_id now period_key period_type amount' used_from_saved)
               = Inl err \<longrightarrow>
             fst (view_add_entry d kid_id' new_id now period_key period_type amount' used_from_saved)
               = d)"
proof -
  have "view_add_entry d kid_id' new_id now period_key period_type amount' used_from_saved
        = (d, Inl ValidationError)" if "amount' \<le> 0 \<or> used_from_saved < 0"
    using that by (auto simp: view_add_entry_def)
  then show ?thesis using view_add_entry_failed_unchanged by blast
qed

theorem C4_validation_before_mutation_witness:
  "view_add_entry [kid_two] ''kid_1'' ''entry_3'' ''2024-03-01T09:00:00'' ''2024-03'' ''monthly''
     0 0 = ([kid_two], Inl ValidationError)
   \<and> view_add_entry [kid_two] ''kid_1'' ''entry_3'' ''2024-03-01T09:00:00'' ''2024-03'' ''monthly''
     50 (- 1) = ([kid_two], Inl ValidationError)"
proof -
  have a: "(0::rat) \<le> 0 \<or> (0::rat) < 0" and b: "(50::rat) \<le> 0 \<or> (- 1::rat) < 0"
    by simp_all
  from a b show ?thesis
    using C4_validation_before_mutation [of 0 0 "[kid_two]" "''kid_1''" "''entry_3''"
        "''2024-03-01T09:00:00''" "''2024-03''" "''monthly''"]
      C4_validation_before_mutation [of 50 "- 1" "[kid_two]" "''kid_1''" "''entry_3''"
        "''2024-03-01T09:00:00''" "''2024-03''" "''monthly''"]
    by blast
qed

subsection \<open>Claim C3\<close>




subsection \<open>The edit path\<close>










subsection \<open>Claim C2\<close>




section \<open>Properties of the period calendar\<close>

subsection \<open>Digits, searching and splitting\<close>

declare str_nat.simps [simp del]

lemma is_digit_digit_char: "d < 10 \<Longrightarrow> is_digit (digit_char d)"
  by (simp add: is_digit_def digit_char_def)

lemma digit_val_digit_char: "d < 10 \<Longrightarrow> digit_val (digit_char d) = d"
  by (simp add: digit_val_def digit_char_def)

lemma is_digit_not_special:
  "is_digit c \<Longrightarrow> c \<noteq> CHR ''-'' \<and> c \<noteq> CHR ''+'' \<and> c \<noteq> CHR ''W'' \<and> c \<noteq> CHR ''B'' \<and> c \<noteq> CHR ''Q''"
  by (auto simp: is_digit_def)

lemma str_nat_digits: "list_all is_digit (str_nat n)"
proof (induction n rule: str_nat.induct)
  case (1 n)
  show ?case
  proof (cases "n < 10")
    case True
    then show ?thesis by (subst str_nat.simps) (simp add: is_digit_digit_char)
  next
    case False
    with 1 show ?thesis by (subst str_nat.simps) (simp add: is_digit_digit_char)
  qed
qed

lemma str_nat_nonempty: "str_nat n \<noteq> []"
  by (subst str_nat.simps) simp

lemma nat_of_digits_snoc: "nat_of_digits (s @ [c]) = 10 * nat_of_digits s + digit_val c"
  by (simp add: nat_of_digits_def)

lemma nat_of_digits_str_nat: "nat_of_digits (str_nat n) = n"
proof (induction n rule: str_nat.induct)
  case (1 n)
  show ?case
  proof (cases "n < 10")
    case True
    then show ?thesis
      by (subst str_nat.simps) (simp add: nat_of_digits_def digit_val_digit_char)
  next
    case False
    with 1 show ?thesis
      by (subst str_nat.simps) (simp add: nat_of_digits_snoc digit_val_digit_char)
  qed
qed

lemma nat_of_digits_zeros: "nat_of_digits (replicate k CHR ''0'' @ s) = nat_of_digits s"
proof -
  have "foldl (\<lambda>n c. 10 * n + digit_val c) 0 (replicate k CHR ''0'') = 0"
    by (induction k) (simp_all add: digit_val_def)
  then show ?thesis by (simp add: nat_of_digits_def)
qed

lemma py_int_digits:
  assumes "s \<noteq> []" and "list_all is_digit s"
  shows "py_int s = Inr (int (nat_of_digits s))"
proof -
  from assms obtain c cs where s: "s = c # cs" by (cases s) auto
  with assms have "is_digit c" by simp
  then have "c \<noteq> CHR ''-''" "c \<noteq> CHR ''+''" using is_digit_not_special by blast+
  then show ?thesis using assms by (simp add: py_int_def s)
qed

lemma py_int_str_int: "0 \<le> i \<Longrightarrow> py_int (str_int i) = Inr i"
  by (simp add: str_int_def py_int_digits str_nat_nonempty str_nat_digits nat_of_digits_str_nat)

lemma zeros_digits: "list_all is_digit (replicate k CHR ''0'')"
  by (induction k) (simp_all add: is_digit_def)

lemma format_02d_digits: "0 \<le> i \<Longrightarrow> list_all is_digit (format_02d i)"
  by (simp add: format_02d_def Let_def str_nat_digits zeros_digits)

lemma format_02d_nonempty: "format_02d i \<noteq> []"
  by (simp add: format_02d_def Let_def str_int_def str_nat_nonempty)

lemma py_int_format_02d: "0 \<le> i \<Longrightarrow> py_int (format_02d i) = Inr i"
proof -
  assume i: "0 \<le> i"
  have "nat_of_digits (format_02d i) = nat i"
    using i by (simp add: format_02d_def Let_def nat_of_digits_zeros nat_of_digits_str_nat)
  then show ?thesis
    using i by (simp add: py_int_digits format_02d_nonempty format_02d_digits)
qed


lemma starts_with_absent:
  "c0 \<notin> set s \<Longrightarrow> s \<noteq> [] \<Longrightarrow> \<not> starts_with (s @ t) (c0 # rest)"
  by (cases s) (auto simp: starts_with_def)

lemma starts_with_self: "starts_with (sep @ u) sep"
  by (simp add: starts_with_def)

lemma contains_skip: "c0 \<notin> set s \<Longrightarrow> contains (s @ t) (c0 # rest) = contains t (c0 # rest)"
proof (induction s)
  case Nil
  show ?case by simp
next
  case (Cons a s)
  then have "\<not> starts_with ((a # s) @ t) (c0 # rest)"
    by (intro starts_with_absent) auto
  with Cons show ?case by simp
qed

lemma contains_absent: "c0 \<notin> set s \<Longrightarrow> \<not> contains s (c0 # rest)"
  using contains_skip [of c0 s "[]" rest] by simp

lemma contains_here: "contains (sep @ u) sep"
proof (cases "sep @ u")
  case Nil
  then show ?thesis by simp
next
  case (Cons a list)
  have "starts_with (sep @ u) sep" by (rule starts_with_self)
  then show ?thesis unfolding Cons by simp
qed

lemma contains_found: "c0 \<notin> set s \<Longrightarrow> contains (s @ (c0 # rest) @ u) (c0 # rest)"
  using contains_skip [of c0 s "(c0 # rest) @ u" rest] contains_here [of "c0 # rest" u]
  by simp

lemma split_at_nonempty: "split_at s sep \<noteq> []"
  by (induction s sep rule: split_at.induct) (auto split: list.splits)

lemma split_at_skip:
  "c0 \<notin> set s \<Longrightarrow>
   split_at (s @ t) (c0 # rest) =
     (s @ hd (split_at t (c0 # rest))) # tl (split_at t (c0 # rest))"
proof (induction s)
  case Nil
  show ?case using split_at_nonempty [of t "c0 # rest"] by simp
next
  case (Cons a s)
  then have "\<not> starts_with ((a # s) @ t) (c0 # rest)"
    by (intro starts_with_absent) auto
  with Cons show ?case by simp
qed

lemma split_at_absent: "c0 \<notin> set s \<Longrightarrow> split_at s (c0 # rest) = [s]"
  using split_at_skip [of c0 s "[]" rest] by simp

lemma split_at_here:
  "split_at ((c0 # rest) @ u) (c0 # rest) = [] # split_at u (c0 # rest)"
  using starts_with_self [of "c0 # rest" u] by simp

lemma split_at_once:
  "c0 \<notin> set s \<Longrightarrow> c0 \<notin> set u \<Longrightarrow> split_at (s @ (c0 # rest) @ u) (c0 # rest) = [s, u]"
  using split_at_skip [of c0 s "(c0 # rest) @ u" rest] split_at_here [of c0 rest u]
    split_at_absent [of c0 u rest]
  by simp

lemma digits_no_dash: "list_all is_digit s \<Longrightarrow> CHR ''-'' \<notin> set s"
  using is_digit_not_special by (auto simp: list_all_iff)

lemma split_pair_key:
  assumes "list_all is_digit a" "a \<noteq> []" "list_all is_digit b" "b \<noteq> []"
    and "sep = CHR ''-'' # rest"
  shows "split_pair (a @ sep @ b) sep mk =
           Inr (mk (int (nat_of_digits a)) (int (nat_of_digits b)))"
proof -
  have "split_at (a @ sep @ b) sep = [a, b]"
    unfolding assms(5) using assms(1,3) by (intro split_at_once digits_no_dash)
  then show ?thesis
    using assms by (simp add: split_pair_def py_split_def py_int_digits)
qed

lemma str_int_nonneg: "0 \<le> i \<Longrightarrow> str_int i = str_nat (nat i)"
  by (simp add: str_int_def)

lemma contains_tagged:
  assumes "list_all is_digit a" and "CHR ''-'' \<notin> set u"
  shows "contains (a @ CHR ''-'' # u) (CHR ''-'' # rest) =
           starts_with (CHR ''-'' # u) (CHR ''-'' # rest)"
proof -
  have "contains (a @ CHR ''-'' # u) (CHR ''-'' # rest) = contains (CHR ''-'' # u) (CHR ''-'' # rest)"
    using assms(1) by (intro contains_skip digits_no_dash)
  moreover have "\<not> contains u (CHR ''-'' # rest)"
    using assms(2) by (rule contains_absent)
  ultimately show ?thesis by simp
qed

lemma starts_with_digit:
  "list_all is_digit b \<Longrightarrow> b \<noteq> [] \<Longrightarrow> \<not> is_digit c \<Longrightarrow>
   \<not> starts_with (CHR ''-'' # b) (CHR ''-'' # c # rest)"
  by (cases b) (auto simp: starts_with_def)

lemma not_digit_tags: "\<not> is_digit CHR ''W''" "\<not> is_digit CHR ''B''" "\<not> is_digit CHR ''Q''"
  by (simp_all add: is_digit_def)

lemma parse_weekly:
  assumes "0 \<le> y" "0 \<le> w"
  shows "parse_period_key (get_period_key (Weekly y w)) = Inr (Weekly y w)"
proof -
  let ?a = "str_nat (nat y)" and ?b = "format_02d w"
  have key: "get_period_key (Weekly y w) = ?a @ ''-W'' @ ?b"
    using assms by (simp add: str_int_nonneg)
  have "contains (?a @ ''-W'' @ ?b) ''-W''"
    using str_nat_digits [of "nat y"] by (intro contains_found digits_no_dash)
  moreover have "split_pair (?a @ ''-W'' @ ?b) ''-W'' Weekly = Inr (Weekly y w)"
    using assms py_int_format_02d [of w]
    by (subst split_pair_key)
       (simp_all add: str_nat_digits str_nat_nonempty format_02d_digits format_02d_nonempty
          nat_of_digits_str_nat py_int_digits)
  ultimately show ?thesis unfolding key parse_period_key_def by simp
qed

lemma parse_biweekly:
  assumes "0 \<le> y" "0 \<le> b"
  shows "parse_period_key (get_period_key (Biweekly y b)) = Inr (Biweekly y b)"
proof -
  let ?a = "str_nat (nat y)" and ?b = "format_02d b"
  have key: "get_period_key (Biweekly y b) = ?a @ ''-BW'' @ ?b"
    using assms by (simp add: str_int_nonneg)
  have nodash: "CHR ''-'' \<notin> set (''BW'' @ ?b)"
    using digits_no_dash [OF format_02d_digits [OF assms(2)]] by simp
  have "contains (?a @ CHR ''-'' # ''BW'' @ ?b) ''-W'' =
          starts_with (CHR ''-'' # ''BW'' @ ?b) ''-W''"
    using str_nat_digits nodash by (rule contains_tagged)
  then have "\<not> contains (?a @ ''-BW'' @ ?b) ''-W''"
    by (simp add: starts_with_def)
  moreover have "contains (?a @ ''-BW'' @ ?b) ''-BW''"
    using str_nat_digits [of "nat y"] by (intro contains_found digits_no_dash)
  moreover have "split_pair (?a @ ''-BW'' @ ?b) ''-BW'' Biweekly = Inr (Biweekly y b)"
    using assms py_int_format_02d [of b]
    by (subst split_pair_key)
       (simp_all add: str_nat_digits str_nat_nonempty format_02d_digits format_02d_nonempty
          nat_of_digits_str_nat py_int_digits)
  ultimately show ?thesis unfolding key parse_period_key_def by simp
qed

lemma parse_quarterly:
  assumes "0 \<le> y" "0 \<le> q"
  shows "parse_period_key (get_period_key (Quarterly y q)) = Inr (Quarterly y q)"
proof -
  let ?a = "str_nat (nat y)" and ?b = "str_nat (nat q)"
  have key: "get_period_key (Quarterly y q) = ?a @ ''-Q'' @ ?b"
    using assms by (simp add: str_int_nonneg)
  have nodash: "CHR ''-'' \<notin> set (''Q'' @ ?b)"
    using digits_no_dash [OF str_nat_digits [of "nat q"]] by simp
  have "\<And>rest. contains (?a @ CHR ''-'' # ''Q'' @ ?b) (CHR ''-'' # rest) =
          starts_with (CHR ''-'' # ''Q'' @ ?b) (CHR ''-'' # rest)"
    using str_nat_digits nodash by (rule contains_tagged)
  then have "\<not> contains (?a @ ''-Q'' @ ?b) ''-W''" "\<not> contains (?a @ ''-Q'' @ ?b) ''-BW''"
    by (simp_all add: starts_with_def)
  moreover have "contains (?a @ ''-Q'' @ ?b) ''-Q''"
    using str_nat_digits [of "nat y"] by (intro contains_found digits_no_dash)
  moreover have "split_pair (?a @ ''-Q'' @ ?b) ''-Q'' Quarterly = Inr (Quarterly y q)"
    using assms
    by (subst split_pair_key)
       (simp_all add: str_nat_digits str_nat_nonempty nat_of_digits_str_nat)
  ultimately show ?thesis unfolding key parse_period_key_def by simp
qed

lemma parse_monthly:
  assumes "0 \<le> y" "0 \<le> m"
  shows "parse_period_key (get_period_key (Monthly y m)) = Inr (Monthly y m)"
proof -
  let ?a = "str_nat (nat y)" and ?b = "format_02d m"
  have key: "get_period_key (Monthly y m) = ?a @ ''-'' @ ?b"
    using assms by (simp add: str_int_nonneg)
  have b: "list_all is_digit ?b" "?b \<noteq> []"
    using assms by (simp_all add: format_02d_digits format_02d_nonempty)
  have "\<And>rest. contains (?a @ CHR ''-'' # ?b) (CHR ''-'' # rest) =
          starts_with (CHR ''-'' # ?b) (CHR ''-'' # rest)"
    using str_nat_digits digits_no_dash [OF b(1)] by (rule contains_tagged)
  then have "\<not> contains (?a @ ''-'' @ ?b) ''-W''" "\<not> contains (?a @ ''-'' @ ?b) ''-BW''"
    "\<not> contains (?a @ ''-'' @ ?b) ''-Q''"
    using starts_with_digit [OF b] not_digit_tags by simp_all
  moreover have "split_pair (?a @ ''-'' @ ?b) ''-'' Monthly = Inr (Monthly y m)"
    using assms py_int_format_02d [of m]
    by (subst split_pair_key)
       (simp_all add: str_nat_digits str_nat_nonempty format_02d_digits format_02d_nonempty
          nat_of_digits_str_nat py_int_digits)
  ultimately show ?thesis unfolding key parse_period_key_def by simp
qed

subsection \<open>Claim C7\<close>

text \<open>
  C7. For every period of each of the four types whose year and index are not
  negative, which all valid periods are, \<^verbatim>\<open>parse_period_key\<close> returns the period
  that \<^verbatim>\<open>get_period_key\<close> wrote the key of.
\<close>

theorem C7_key_round_trip:
  assumes "0 \<le> period_year p" and "0 \<le> period_index p"
  shows "parse_period_key (get_period_key p) = Inr p"
proof (cases p)
  case (Weekly y w)
  with assms show ?thesis by (simp only: parse_weekly period_year.simps period_index.simps)
next
  case (Biweekly y b)
  with assms show ?thesis by (simp only: parse_biweekly period_year.simps period_index.simps)
next
  case (Quarterly y q)
  with assms show ?thesis by (simp only: parse_quarterly period_year.simps period_index.simps)
next
  case (Monthly y m)
  with assms show ?thesis by (simp only: parse_monthly period_year.simps period_index.simps)
qed

theorem C7_key_round_trip_witness:
  "get_period_key (Biweekly 2024 13) = ''2024-BW13''
   \<and> parse_period_key ''2024-BW13'' = Inr (Biweekly 2024 13)"
proof -
  have key: "get_period_key (Biweekly 2024 13) = ''2024-BW13''"
    by code_simp
  have "parse_period_key (get_period_key (Biweekly 2024 13)) = Inr (Biweekly 2024 13)"
    using C7_key_round_trip [of "Biweekly 2024 13"] by simp
  then show ?thesis by (simp only: key simp_thms)
qed

subsection \<open>Dates, month ends and the weeks of a year\<close>

lemma month_cases:
  "1 \<le> m \<Longrightarrow> m \<le> 12 \<Longrightarrow>
   m = 1 \<or> m = 2 \<or> m = 3 \<or> m = 4 \<or> m = 5 \<or> m = 6 \<or> m = 7 \<or> m = 8 \<or> m = 9 \<or> m = 10
     \<or> m = 11 \<or> m = (12::int)"
  by arith

lemma days_in_month_values:
  "days_in_month y 1 = 31" "days_in_month y 2 = (if is_leap y then 29 else 28)"
  "days_in_month y 3 = 31" "days_in_month y 4 = 30" "days_in_month y 5 = 31"
  "days_in_month y 6 = 30" "days_in_month y 7 = 31" "days_in_month y 8 = 31"
  "days_in_month y 9 = 30" "days_in_month y 10 = 31" "days_in_month y 11 = 30"
  "days_in_month y 12 = 31"
  by (simp_all add: days_in_month_def month_lengths_def)

lemma days_in_month_pos: "1 \<le> m \<Longrightarrow> m \<le> 12 \<Longrightarrow> 28 \<le> days_in_month y m"
  using month_cases [of m] by (auto simp: days_in_month_values)

lemma datetime_first:
  "1 \<le> y \<Longrightarrow> y \<le> 9999 \<Longrightarrow> 1 \<le> m \<Longrightarrow> m \<le> 12 \<Longrightarrow>
   datetime y m 1 = Inr \<lparr>d_year = y, d_month = m, d_day = 1\<rparr>"
  using days_in_month_pos [of m y] by (simp add: datetime_def)

lemma month_end:
  assumes "1 \<le> y" "y \<le> 9999" "1 \<le> m" "m \<le> 12"
  shows "get_month_dates m y =
           Inr (\<lparr>d_year = y, d_month = m, d_day = 1\<rparr>,
                \<lparr>d_year = y, d_month = m, d_day = days_in_month y m\<rparr>)"
proof (cases "m = 12")
  case True
  then show ?thesis
    using assms by (simp add: get_month_dates_def datetime_def days_in_month_values)
next
  case False
  with assms have "1 \<le> m + 1" "m + 1 \<le> 12" by simp_all
  then have "datetime y (m + 1) 1 = Inr \<lparr>d_year = y, d_month = m + 1, d_day = 1\<rparr>"
    using assms by (intro datetime_first)
  moreover have "minus_one_day \<lparr>d_year = y, d_month = m + 1, d_day = 1\<rparr> =
      Inr \<lparr>d_year = y, d_month = m, d_day = days_in_month y m\<rparr>"
    using assms by (simp add: minus_one_day_def)
  ultimately show ?thesis
    using assms False by (simp add: get_month_dates_def datetime_first)
qed

lemma quarter_end:
  assumes "1 \<le> y" "y \<le> 9999" "1 \<le> q" "q \<le> 4"
  shows "get_quarter_dates q y =
           Inr (\<lparr>d_year = y, d_month = 3 * q - 2, d_day = 1\<rparr>,
                \<lparr>d_year = y, d_month = 3 * q, d_day = days_in_month y (3 * q)\<rparr>)"
proof -
  from assms have "q = 1 \<or> q = 2 \<or> q = 3 \<or> q = 4" by arith
  then show ?thesis
    using assms
    by (auto simp: get_quarter_dates_def datetime_def minus_one_day_def days_in_month_values)
qed

lemma div_pred:
  fixes y n :: int
  assumes "0 < n"
  shows "(y - 1) div n = y div n - (if y mod n = 0 then 1 else 0)"
proof (cases "y mod n = 0")
  case True
  then have "y = n * (y div n)" by (simp add: dvd_mult_div_cancel mod_eq_0_iff_dvd)
  then have "y - 1 = n * (y div n - 1) + (n - 1)" by (simp add: algebra_simps)
  then have "(y - 1) div n = y div n - 1"
    using assms int_div_pos_eq [of "y - 1" n "y div n - 1" "n - 1"] by simp
  with True show ?thesis by simp
next
  case False
  have "0 \<le> y mod n" "y mod n < n" using assms by simp_all
  with False have r: "0 \<le> y mod n - 1" "y mod n - 1 < n" by simp_all
  have "y = n * (y div n) + y mod n" by simp
  then have "y - 1 = n * (y div n) + (y mod n - 1)" by simp
  then have "(y - 1) div n = y div n"
    using r int_div_pos_eq [of "y - 1" n "y div n" "y mod n - 1"] by simp
  with False show ?thesis by simp
qed

lemma mod_400_100: "(y::int) mod 400 = 0 \<Longrightarrow> y mod 100 = 0"
proof -
  assume "y mod 400 = 0"
  then have "400 dvd y" by (simp add: mod_eq_0_iff_dvd)
  moreover have "(100::int) dvd 400" by simp
  ultimately have "100 dvd y" using dvd_trans by blast
  then show ?thesis by (simp add: mod_eq_0_iff_dvd)
qed

lemma mod_100_4: "(y::int) mod 100 = 0 \<Longrightarrow> y mod 4 = 0"
proof -
  assume "y mod 100 = 0"
  then have "100 dvd y" by (simp add: mod_eq_0_iff_dvd)
  moreover have "(4::int) dvd 100" by simp
  ultimately have "4 dvd y" using dvd_trans by blast
  then show ?thesis by (simp add: mod_eq_0_iff_dvd)
qed

lemma days_before_next_year:
  "days_before_year (y + 1) = days_before_year y + (if is_leap y then 366 else 365)"
proof -
  define a b c where "a = y div 4" and "b = y div 100" and "c = y div 400"
  define i4 i100 i400 :: int where "i4 = (if y mod 4 = 0 then 1 else 0)"
    and "i100 = (if y mod 100 = 0 then 1 else 0)"
    and "i400 = (if y mod 400 = 0 then 1 else 0)"
  have pred: "(y - 1) div 4 = a - i4" "(y - 1) div 100 = b - i100" "(y - 1) div 400 = c - i400"
    unfolding a_def b_def c_def i4_def i100_def i400_def
    by (simp_all only: div_pred [of 4 y] div_pred [of 100 y] div_pred [of 400 y])
  have nxt: "days_before_year (y + 1) = y * 365 + a - b + c"
    by (simp add: days_before_year_def a_def b_def c_def)
  have cur: "days_before_year y = (y - 1) * 365 + (a - i4) - (b - i100) + (c - i400)"
    by (simp only: days_before_year_def Let_def pred)
  have leap: "(if is_leap y then 1 else 0) = i4 - i100 + i400"
    using mod_400_100 [of y] mod_100_4 [of y]
    unfolding is_leap_def i4_def i100_def i400_def
    by (cases "y mod 4 = 0"; cases "y mod 100 = 0"; cases "y mod 400 = 0") simp_all
  have "days_before_year (y + 1) = days_before_year y + 365 + (i4 - i100 + i400)"
    unfolding nxt cur by (simp add: algebra_simps)
  also have "\<dots> = days_before_year y + 365 + (if is_leap y then 1 else 0)"
    by (simp only: leap)
  finally show ?thesis by simp
qed

lemma next_day_is_first:
  assumes "1 \<le> m" "m \<le> 12"
  shows "ymd2ord y m (days_in_month y m) + 1 =
           (if m = 12 then ymd2ord (y + 1) 1 1 else ymd2ord y (m + 1) 1)"
  using month_cases [OF assms]
  by (auto simp: ymd2ord_def days_before_month_def days_in_month_values month_lengths_def
        days_before_next_year)

lemma dec_28_week:
  "isocalendar_week \<lparr>d_year = y, d_month = 12, d_day = 28\<rparr> = 52
   \<or> isocalendar_week \<lparr>d_year = y, d_month = 12, d_day = 28\<rparr> = 53"
proof -
  define fd where "fd = ymd2ord y 1 1"
  define fw where "fw = (fd + 6) mod 7"
  define nfd where "nfd = ymd2ord (y + 1) 1 1"
  define nfw where "nfw = (nfd + 6) mod 7"
  define lp :: int where "lp = (if is_leap y then 1 else 0)"
  define today where "today = toordinal \<lparr>d_year = y, d_month = 12, d_day = 28\<rparr>"
  have today: "today = fd + 361 + lp"
    by (simp add: today_def toordinal_def ymd2ord_def days_before_month_def month_lengths_def
          fd_def lp_def)
  have nfd: "nfd = fd + 365 + lp"
    by (simp add: nfd_def ymd2ord_def days_before_month_def days_before_next_year fd_def lp_def)
  have lp: "0 \<le> lp" "lp \<le> 1" by (simp_all add: lp_def)
  have fw: "0 \<le> fw" "fw \<le> 6" by (simp_all add: fw_def)
  have nfw: "0 \<le> nfw" "nfw \<le> 6" by (simp_all add: nfw_def)
  have w1: "isoweek1monday y = (if 3 < fw then fd - fw + 7 else fd - fw)"
    unfolding isoweek1monday_def Let_def fw_def fd_def by simp
  have nw1: "isoweek1monday (y + 1) = (if 3 < nfw then nfd - nfw + 7 else nfd - nfw)"
    unfolding isoweek1monday_def Let_def nfw_def nfd_def by simp
  define k where "k = today - isoweek1monday y"
  have k: "357 \<le> k" "k < 371"
    unfolding k_def w1 today using lp fw by (simp_all split: if_splits)
  then have week: "k div 7 = 51 \<or> k div 7 = 52" by presburger
  have not_next: "\<not> isoweek1monday (y + 1) \<le> today"
    unfolding nw1 today nfd using lp nfw by (simp split: if_splits)
  have "isocalendar_week \<lparr>d_year = y, d_month = 12, d_day = 28\<rparr> = k div 7 + 1"
    unfolding isocalendar_week_def Let_def
    using week not_next by (auto simp: k_def today_def)
  with week show ?thesis by auto
qed

lemma max_weeks_52_53:
  assumes "get_max_weeks_in_year y = Inr m"
  shows "m = 52 \<or> m = 53"
  using assms dec_28_week [of y]
  by (auto simp: get_max_weeks_in_year_def datetime_def split: if_splits)

subsection \<open>Claim C9\<close>

text \<open>
  C9. For every year that \<^verbatim>\<open>datetime\<close> has and every month 1..12,
  \<^verbatim>\<open>get_month_dates\<close> returns the first day of the month and its last calendar day:
  the day whose successor, by ordinal, is the first of the next month. For every
  quarter 1..4, \<^verbatim>\<open>get_quarter_dates\<close> returns the first day of the quarter's first
  month and the last calendar day of its third month. December ends on the 31st,
  February on the 29th in a leap year and on the 28th otherwise.
\<close>

theorem C9_month_and_quarter_ranges:
  assumes "1 \<le> y" and "y \<le> 9999"
  shows "(\<forall>m. 1 \<le> m \<and> m \<le> 12 \<longrightarrow>
            get_month_dates m y =
              Inr (\<lparr>d_year = y, d_month = m, d_day = 1\<rparr>,
                   \<lparr>d_year = y, d_month = m, d_day = days_in_month y m\<rparr>)
            \<and> ymd2ord y m (days_in_month y m) + 1 =
                (if m = 12 then ymd2ord (y + 1) 1 1 else ymd2ord y (m + 1) 1))
         \<and> (\<forall>q. 1 \<le> q \<and> q \<le> 4 \<longrightarrow>
              get_quarter_dates q y =
                Inr (\<lparr>d_year = y, d_month = 3 * q - 2, d_day = 1\<rparr>,
                     \<lparr>d_year = y, d_month = 3 * q, d_day = days_in_month y (3 * q)\<rparr>))
         \<and> days_in_month y 12 = 31
         \<and> days_in_month y 2 = (if is_leap y then 29 else 28)"
  using assms month_end [of y] quarter_end [of y] next_day_is_first [of _ y]
    days_in_month_values(2,12) [of y]
  by blast

theorem C9_month_and_quarter_ranges_witness:
  "get_month_dates 2 2024 =
     Inr (\<lparr>d_year = 2024, d_month = 2, d_day = 1\<rparr>, \<lparr>d_year = 2024, d_month = 2, d_day = 29\<rparr>)
   \<and> get_quarter_dates 4 2024 =
     Inr (\<lparr>d_year = 2024, d_month = 10, d_day = 1\<rparr>, \<lparr>d_year = 2024, d_month = 12, d_day = 31\<rparr>)"
proof -
  have leap: "is_leap 2024" by (simp add: is_leap_def)
  have y: "(1::int) \<le> 2024" "(2024::int) \<le> 9999" by simp_all
  note inst = C9_month_and_quarter_ranges [OF y]
  from inst have feb: "get_month_dates 2 2024 =
      Inr (\<lparr>d_year = 2024, d_month = 2, d_day = 1\<rparr>,
           \<lparr>d_year = 2024, d_month = 2, d_day = days_in_month 2024 2\<rparr>)"
    by simp
  from inst have q4: "get_quarter_dates 4 2024 =
      Inr (\<lparr>d_year = 2024, d_month = 3 * 4 - 2, d_day = 1\<rparr>,
           \<lparr>d_year = 2024, d_month = 3 * 4, d_day = days_in_month 2024 (3 * 4)\<rparr>)"
    by simp
  from inst leap have d: "days_in_month 2024 2 = 29" "days_in_month 2024 12 = 31" by simp_all
  show ?thesis using feb q4 d by simp
qed

subsection \<open>Navigation\<close>

lemma max_weeks_defined:
  "1 \<le> y \<Longrightarrow> y \<le> 9999 \<Longrightarrow> \<exists>m. get_max_weeks_in_year y = Inr m"
  by (simp add: get_max_weeks_in_year_def datetime_def days_in_month_def month_lengths_def)

lemma max_weeks_range:
  "get_max_weeks_in_year y = Inr m \<Longrightarrow> 1 \<le> y \<and> y \<le> 9999"
  by (auto simp: get_max_weeks_in_year_def datetime_def split: if_splits)

lemma weekly_back:
  assumes "valid_period (Weekly y w)" "y \<noteq> 9999"
  shows "there_and_back (Weekly y w) = Inr (Weekly y w)"
proof -
  from assms(1) obtain m where m: "get_max_weeks_in_year y = Inr m" and w: "1 \<le> w" "w \<le> m"
    and y: "1 \<le> y" "y \<le> 9999"
    by (auto simp: valid_period_def split: sum.splits)
  from y assms(2) obtain m' where m': "get_max_weeks_in_year (y + 1) = Inr m'"
    using max_weeks_defined [of "y + 1"] by auto
  show ?thesis
  proof (cases "w = m")
    case True
    then show ?thesis using m m' w by (simp add: there_and_back_def)
  next
    case False
    then show ?thesis using m w by (simp add: there_and_back_def)
  qed
qed

lemma biweekly_back:
  assumes "valid_period (Biweekly y b)" "y \<noteq> 9999"
  shows "there_and_back (Biweekly y b) = Inr (Biweekly y b)"
proof -
  from assms(1) obtain m where m: "get_max_weeks_in_year y = Inr m"
    and b: "1 \<le> b" "b \<le> (m + 1) div 2" and y: "1 \<le> y" "y \<le> 9999"
    by (auto simp: valid_period_def split: sum.splits)
  from y assms(2) obtain m' where m': "get_max_weeks_in_year (y + 1) = Inr m'"
    using max_weeks_defined [of "y + 1"] by auto
  show ?thesis
  proof (cases "b = (m + 1) div 2")
    case True
    with b have "\<not> b + 1 < 1" "(m + 1) div 2 < b + 1" by simp_all
    then have "navigate_period (Biweekly y b) 1 = Inr (Biweekly (y + 1) 1)"
      using m by (simp add: Let_def)
    moreover have "navigate_period (Biweekly (y + 1) 1) (- 1) = Inr (Biweekly y b)"
      using m m' True by (simp add: Let_def)
    ultimately show ?thesis by (simp add: there_and_back_def)
  next
    case False
    then show ?thesis using m b by (simp add: there_and_back_def Let_def)
  qed
qed

lemma quarterly_back:
  "1 \<le> q \<Longrightarrow> q \<le> 4 \<Longrightarrow> there_and_back (Quarterly y q) = Inr (Quarterly y q)"
  by (simp add: there_and_back_def Let_def)

lemma monthly_back:
  "1 \<le> m \<Longrightarrow> m \<le> 12 \<Longrightarrow> there_and_back (Monthly y m) = Inr (Monthly y m)"
  by (simp add: there_and_back_def Let_def)

lemma navigate_inverse:
  assumes "valid_period p" and "week_based p \<longrightarrow> period_year p \<noteq> 9999"
  shows "there_and_back p = Inr p"
proof (cases p)
  case (Weekly y w)
  with assms show ?thesis by (simp add: weekly_back)
next
  case (Biweekly y b)
  with assms show ?thesis by (simp add: biweekly_back)
next
  case (Quarterly y q)
  with assms show ?thesis by (simp add: quarterly_back valid_period_def)
next
  case (Monthly y m)
  with assms show ?thesis by (simp add: monthly_back valid_period_def)
qed

lemma week_one_back:
  assumes "valid_period (Weekly y 1)" "get_max_weeks_in_year (y - 1) = Inr m"
  shows "navigate_period (Weekly y 1) (- 1) = Inr (Weekly (y - 1) m)"
  using assms by (auto simp: valid_period_def split: sum.splits)

lemma biweek_one_back:
  assumes "valid_period (Biweekly y 1)" "get_max_weeks_in_year (y - 1) = Inr m"
  shows "navigate_period (Biweekly y 1) (- 1) = Inr (Biweekly (y - 1) ((m + 1) div 2))"
  using assms by (auto simp: valid_period_def Let_def split: sum.splits)

lemma quarter_wrap:
  assumes "1 \<le> q" "q \<le> 4"
  shows "navigate_period (Quarterly y q) 1 = Inr (Quarterly (y + q div 4) (q mod 4 + 1))"
    and "navigate_period (Quarterly y q) (- 1) = Inr (Quarterly (y + (q - 2) div 4) ((q - 2) mod 4 + 1))"
proof -
  from assms have "q = 1 \<or> q = 2 \<or> q = 3 \<or> q = 4" by arith
  then show "navigate_period (Quarterly y q) 1 = Inr (Quarterly (y + q div 4) (q mod 4 + 1))"
    and "navigate_period (Quarterly y q) (- 1) = Inr (Quarterly (y + (q - 2) div 4) ((q - 2) mod 4 + 1))"
    by auto
qed

lemma month_wrap:
  assumes "1 \<le> m" "m \<le> 12"
  shows "navigate_period (Monthly y m) 1 = Inr (Monthly (y + m div 12) (m mod 12 + 1))"
    and "navigate_period (Monthly y m) (- 1) = Inr (Monthly (y + (m - 2) div 12) ((m - 2) mod 12 + 1))"
proof -
  from assms have "m = 1 \<or> m = 2 \<or> m = 3 \<or> m = 4 \<or> m = 5 \<or> m = 6 \<or> m = 7 \<or> m = 8 \<or> m = 9
      \<or> m = 10 \<or> m = 11 \<or> m = 12" by arith
  then show "navigate_period (Monthly y m) 1 = Inr (Monthly (y + m div 12) (m mod 12 + 1))"
    and "navigate_period (Monthly y m) (- 1) = Inr (Monthly (y + (m - 2) div 12) ((m - 2) mod 12 + 1))"
    by auto
qed

text \<open>
  The last week of the year 9999 has a successor, week 1 of the year 10000, from which
  there is no way back: \<^verbatim>\<open>datetime(10000, 12, 28)\<close> is out of range.
\<close>

lemma last_year_stuck:
  "navigate_period (Weekly 9999 52) 1 = Inr (Weekly 10000 1)"
  "there_and_back (Weekly 9999 52) = Inl ValueError"
  by code_simp+

lemma next_in_range:
  assumes "valid_period p" and "week_based p \<longrightarrow> period_year p \<noteq> 9999"
  shows "\<exists>q. navigate_period p 1 = Inr q \<and> index_in_range q"
proof (cases p)
  case (Weekly y w)
  from assms Weekly obtain m where m: "get_max_weeks_in_year y = Inr m" and w: "1 \<le> w" "w \<le> m"
    and y: "1 \<le> y" "y \<le> 9999" "y \<noteq> 9999"
    by (auto simp: valid_period_def split: sum.splits)
  from y obtain m' where m': "get_max_weeks_in_year (y + 1) = Inr m'"
    using max_weeks_defined [of "y + 1"] by auto
  from max_weeks_52_53 [OF m'] have "1 \<le> m'" by auto
  then show ?thesis using Weekly m m' w by (auto simp: Let_def)
next
  case (Biweekly y b)
  from assms Biweekly obtain m where m: "get_max_weeks_in_year y = Inr m"
    and b: "1 \<le> b" "b \<le> (m + 1) div 2" and y: "1 \<le> y" "y \<le> 9999" "y \<noteq> 9999"
    by (auto simp: valid_period_def split: sum.splits)
  from y obtain m' where m': "get_max_weeks_in_year (y + 1) = Inr m'"
    using max_weeks_defined [of "y + 1"] by auto
  from max_weeks_52_53 [OF m'] have "1 \<le> (m' + 1) div 2" by auto
  then show ?thesis using Biweekly m m' b by (auto simp: Let_def)
next
  case (Quarterly y q)
  with assms show ?thesis by (auto simp: valid_period_def Let_def)
next
  case (Monthly y m)
  with assms show ?thesis by (auto simp: valid_period_def Let_def)
qed

subsection \<open>Claim C8\<close>

text \<open>
  C8. For every valid period, going one period forward and then one period back
  returns the period, and the period in between has an index of its year's range; for
  the week types the year after the period's has to be a year of \<^verbatim>\<open>datetime\<close> too,
  so the year is below 9999. Week 1 navigated backward is the last week of the year
  before, week \<^verbatim>\<open>get_max_weeks_in_year(year - 1)\<close>; biweek 1 navigated backward is
  biweek \<^verbatim>\<open>(get_max_weeks_in_year(year - 1) + 1) // 2\<close> of the year before; quarters
  and months wrap modulo 4 and modulo 12 and carry into the year.
\<close>

theorem C8_navigate_inverse:
  assumes "valid_period p" and "week_based p \<longrightarrow> period_year p \<noteq> 9999"
  shows "there_and_back p = Inr p
         \<and> (\<exists>q. navigate_period p 1 = Inr q \<and> index_in_range q)
         \<and> (\<forall>y m. p = Weekly y 1 \<and> get_max_weeks_in_year (y - 1) = Inr m \<longrightarrow>
               navigate_period p (- 1) = Inr (Weekly (y - 1) m))
         \<and> (\<forall>y m. p = Biweekly y 1 \<and> get_max_weeks_in_year (y - 1) = Inr m \<longrightarrow>
               navigate_period p (- 1) = Inr (Biweekly (y - 1) ((m + 1) div 2)))
         \<and> (\<forall>y q. p = Quarterly y q \<longrightarrow>
               navigate_period p 1 = Inr (Quarterly (y + q div 4) (q mod 4 + 1))
               \<and> navigate_period p (- 1) = Inr (Quarterly (y + (q - 2) div 4) ((q - 2) mod 4 + 1)))
         \<and> (\<forall>y m. p = Monthly y m \<longrightarrow>
               navigate_period p 1 = Inr (Monthly (y + m div 12) (m mod 12 + 1))
               \<and> navigate_period p (- 1) = Inr (Monthly (y + (m - 2) div 12) ((m - 2) mod 12 + 1)))"
proof -
  have rt: "there_and_back p = Inr p"
    using assms by (rule navigate_inverse)
  have nxt: "\<exists>q. navigate_period p 1 = Inr q \<and> index_in_range q"
    using assms by (rule next_in_range)
  have wk: "navigate_period p (- 1) = Inr (Weekly (y - 1) m)"
    if "p = Weekly y 1 \<and> get_max_weeks_in_year (y - 1) = Inr m" for y m
    using that assms(1) week_one_back [of y m] by blast
  have bw: "navigate_period p (- 1) = Inr (Biweekly (y - 1) ((m + 1) div 2))"
    if "p = Biweekly y 1 \<and> get_max_weeks_in_year (y - 1) = Inr m" for y m
    using that assms(1) biweek_one_back [of y m] by blast
  have qu: "navigate_period p 1 = Inr (Quarterly (y + q div 4) (q mod 4 + 1))
      \<and> navigate_period p (- 1) = Inr (Quarterly (y + (q - 2) div 4) ((q - 2) mod 4 + 1))"
    if "p = Quarterly y q" for y q
    using that assms(1) quarter_wrap [of q y] by (simp add: valid_period_def)
  have mo: "navigate_period p 1 = Inr (Monthly (y + m div 12) (m mod 12 + 1))
      \<and> navigate_period p (- 1) = Inr (Monthly (y + (m - 2) div 12) ((m - 2) mod 12 + 1))"
    if "p = Monthly y m" for y m
    using that assms(1) month_wrap [of m y] by (simp add: valid_period_def)
  show ?thesis using rt nxt wk bw qu mo by blast
qed

theorem C8_navigate_inverse_witness:
  "there_and_back (Weekly 2024 1) = Inr (Weekly 2024 1)
   \<and> navigate_period (Weekly 2024 1) (- 1) = Inr (Weekly 2023 52)"
proof -
  have v: "valid_period (Weekly 2024 1)" by code_simp
  have y: "week_based (Weekly 2024 1) \<longrightarrow> period_year (Weekly 2024 1) \<noteq> 9999" by simp
  have m: "get_max_weeks_in_year (2024 - 1) = Inr 52" by code_simp
  note inst = C8_navigate_inverse [OF v y]
  from inst have rt: "there_and_back (Weekly 2024 1) = Inr (Weekly 2024 1)" by blast
  from inst m have "navigate_period (Weekly 2024 1) (- 1) = Inr (Weekly (2024 - 1) 52)" by blast
  with rt show ?thesis by simp
qed

end
